theory Spec2Isabelle
  imports Main "HOL-Library.AList" "HOL-Library.Sublist" "HOL-Library.Word"
begin

section \<open>The values \<open>json.load\<close> returns\<close>

text \<open>
  \<open>resources/assets/uad_edit.py\<close> is a script of one loop over a parsed JSON document.
  A parsed value is \<open>None\<close>, a \<open>bool\<close>, an unbounded \<open>int\<close>, a \<open>float\<close> (an IEEE
  double, kept here as its 64 bits: the script never looks inside one), a \<open>str\<close> (kept
  as the bytes of its UTF-8 text; every string the script names is ASCII), a \<open>list\<close> or
  a \<open>dict\<close>. A \<open>dict\<close> keeps its keys in insertion order, so it is an association
  list, with \<open>map_of\<close> for the lookup; \<open>json.load\<close> builds every \<open>dict\<close> afresh, so
  no two entries of the document share a record and the in-place updates of the loop are
  updates of one entry.
\<close>

datatype json =
    JNull
  | JBool bool
  | JInt int
  | JFloat "64 word"
  | JString string
  | JArray "json list"
  | JObject "(string \<times> json) list"

text \<open>
  The development covers the loop, lines 6 to 24, on the value \<open>json.load\<close> returned.
  The statements around it (\<open>open\<close> and \<open>json.load\<close> on lines 4 and 5, \<open>open\<close> and
  \<open>json.dump\<close> on lines 27 and 28) are calls into the standard library and the
  operating system; which texts the parser accepts, which exceptions it and the codecs
  raise, and what the file system answers is decided there and not in this script, so
  they are not modelled.
\<close>

text \<open>The exceptions the operations of the loop raise.\<close>

datatype py_error = AttributeError | TypeError | KeyError

text \<open>Sequencing of statements: the first exception ends the run.\<close>

definition and_then :: "'e + 'a \<Rightarrow> ('a \<Rightarrow> 'e + 'b) \<Rightarrow> 'e + 'b" where
  "and_then m f = (case m of Inl e \<Rightarrow> Inl e | Inr a \<Rightarrow> f a)"

section \<open>The operations the loop applies to \<open>app_data\<close>\<close>

text \<open>
  \<open>'k' in app_data\<close>: key membership on a \<open>dict\<close>, element membership on a \<open>list\<close>,
  substring test on a \<open>str\<close>, \<open>TypeError\<close> on a number, a \<open>bool\<close> or \<open>None\<close>.
\<close>

fun contains :: "string \<Rightarrow> json \<Rightarrow> py_error + bool" where
  "contains k (JObject d) = Inr (k \<in> set (map fst d))"
| "contains k (JArray xs) = Inr (JString k \<in> set xs)"
| "contains k (JString s) = Inr (sublist k s)"
| "contains k _ = Inl TypeError"

text \<open>
  \<open>del app_data['k']\<close>: the other keys of a \<open>dict\<close> keep their order; a \<open>list\<close> or a
  \<open>str\<close> does not take a \<open>str\<close> index.
\<close>

fun delitem :: "string \<Rightarrow> json \<Rightarrow> py_error + json" where
  "delitem k (JObject d) =
     (if k \<in> set (map fst d) then Inr (JObject (AList.delete k d)) else Inl KeyError)"
| "delitem k _ = Inl TypeError"

text \<open>
  \<open>app_data.get('k')\<close>: the value, or \<open>None\<close> for a missing key; only a \<open>dict\<close> has
  the method.
\<close>

fun get :: "json \<Rightarrow> string \<Rightarrow> py_error + json" where
  "get (JObject d) k = Inr (case map_of d k of None \<Rightarrow> JNull | Some v \<Rightarrow> v)"
| "get _ k = Inl AttributeError"

text \<open>
  \<open>app_data['k'] = v\<close>: an existing key keeps its place and takes the new value, a new key
  goes to the end.
\<close>

fun setitem :: "string \<Rightarrow> json \<Rightarrow> json \<Rightarrow> py_error + json" where
  "setitem k v (JObject d) = Inr (JObject (AList.update k v d))"
| "setitem k v _ = Inl TypeError"

section \<open>The loop\<close>

text \<open>\<open>if 'k' in app_data: del app_data['k']\<close> (lines 9 to 16, once for each of three keys).\<close>

definition remove_if_present :: "string \<Rightarrow> json \<Rightarrow> py_error + json" where
  "remove_if_present k app_data =
     and_then (contains k app_data)
       (\<lambda>present. if present then delitem k app_data else Inr app_data)"

text \<open>Lines 19 to 24: \<open>removal = app_data.get('removal')\<close> and the \<open>if\<close>/\<open>elif\<close> on it.\<close>

definition rename_removal :: "json \<Rightarrow> py_error + json" where
  "rename_removal app_data =
     and_then (get app_data ''removal'')
       (\<lambda>removal.
          if removal = JString ''Recommended''
            then setitem ''removal'' (JString ''Safe'') app_data
          else if removal = JString ''Expert''
            then setitem ''removal'' (JString ''Disruptive'') app_data
          else Inr app_data)"

text \<open>The body of the loop, lines 8 to 24, on one \<open>app_data\<close>.\<close>

definition loop_body :: "json \<Rightarrow> py_error + json" where
  "loop_body app_data =
     and_then (remove_if_present ''neededBy'' app_data) (\<lambda>app_data.
     and_then (remove_if_present ''labels'' app_data) (\<lambda>app_data.
     and_then (remove_if_present ''dependencies'' app_data) rename_removal))"

text \<open>
  \<open>for app_id, app_data in data.items()\<close>: the entries in insertion order, each value
  updated in place under its key; an exception in one entry ends the loop.
\<close>

fun items_loop :: "(string \<times> json) list \<Rightarrow> py_error + (string \<times> json) list" where
  "items_loop [] = Inr []"
| "items_loop ((app_id, app_data) # rest) =
     and_then (loop_body app_data) (\<lambda>app_data'.
     and_then (items_loop rest) (\<lambda>rest'. Inr ((app_id, app_data') # rest')))"

text \<open>Lines 6 to 24 on the loaded \<open>data\<close>; only a \<open>dict\<close> has \<open>items\<close>.\<close>

fun transform :: "json \<Rightarrow> py_error + json" where
  "transform (JObject data) = and_then (items_loop data) (\<lambda>data'. Inr (JObject data'))"
| "transform _ = Inl AttributeError"

section \<open>Documents\<close>

text \<open>
  A Document is the entry list of the top-level object; its entries are objects when every
  value is a \<open>dict\<close>.
\<close>

fun is_object :: "json \<Rightarrow> bool" where
  "is_object (JObject d) = True"
| "is_object _ = False"

definition entries_are_objects :: "(string \<times> json) list \<Rightarrow> bool" where
  "entries_are_objects doc = list_all is_object (map snd doc)"

text \<open>
  A Document of four records: the three examples of the specification, and a record with
  no \<open>removal\<close> field.
\<close>

definition example_doc :: "(string \<times> json) list" where
  "example_doc =
     [(''app.a'', JObject [(''removal'', JString ''Recommended''),
                           (''labels'', JArray [JString ''x'']),
                           (''other'', JInt 1)]),
      (''app.b'', JObject [(''removal'', JString ''Expert''),
                           (''dependencies'', JArray [])]),
      (''app.c'', JObject [(''removal'', JString ''Unknown'')]),
      (''app.d'', JObject [(''neededBy'', JArray []),
                           (''list'', JString ''Oem'')])]"

text \<open>The outputs the specification's examples give for these records.\<close>

definition example_out :: "(string \<times> json) list" where
  "example_out =
     [(''app.a'', JObject [(''removal'', JString ''Safe''), (''other'', JInt 1)]),
      (''app.b'', JObject [(''removal'', JString ''Disruptive'')]),
      (''app.c'', JObject [(''removal'', JString ''Unknown'')]),
      (''app.d'', JObject [(''list'', JString ''Oem'')])]"

section \<open>Sequencing\<close>

lemma and_then_Inr [simp]: "and_then (Inr a) f = f a"
  by (simp add: and_then_def)

lemma and_then_Inl [simp]: "and_then (Inl e) f = Inl e"
  by (simp add: and_then_def)

lemma and_then_eq_Inr: "and_then m f = Inr b \<longleftrightarrow> (\<exists>a. m = Inr a \<and> f a = Inr b)"
  by (cases m) simp_all

section \<open>The loop body on one record\<close>

lemma remove_if_present_object:
  "remove_if_present k (JObject d) = Inr (JObject (AList.delete k d))"
  by (simp add: remove_if_present_def image_iff)

lemma remove_if_present_Inr:
  "remove_if_present k v = Inr v' \<Longrightarrow> is_object v' \<Longrightarrow> is_object v"
  by (cases v) (auto simp: remove_if_present_def split: if_splits)

lemma rename_removal_Inr: "rename_removal v = Inr v' \<Longrightarrow> is_object v"
  by (cases v) (simp_all add: rename_removal_def)

lemma rename_removal_object:
  "rename_removal (JObject d) = Inr (JObject
     (if map_of d ''removal'' = Some (JString ''Recommended'')
        then AList.update ''removal'' (JString ''Safe'') d
      else if map_of d ''removal'' = Some (JString ''Expert'')
        then AList.update ''removal'' (JString ''Disruptive'') d
      else d))"
  by (simp add: rename_removal_def split: option.splits)

lemma loop_body_object:
  "loop_body (JObject d) = rename_removal (JObject
     (AList.delete ''dependencies'' (AList.delete ''labels'' (AList.delete ''neededBy'' d))))"
  by (simp add: loop_body_def remove_if_present_object)

lemma loop_body_Inr: "loop_body v = Inr v' \<Longrightarrow> is_object v"
  by (auto simp: loop_body_def and_then_eq_Inr dest: remove_if_present_Inr rename_removal_Inr)

lemma loop_body_total: "is_object v \<Longrightarrow> \<exists>rec'. loop_body v = Inr (JObject rec')"
  by (cases v) (simp_all add: loop_body_object rename_removal_object)

text \<open>
  Deleting the three keys leaves the other keys in their order and with their values;
  overwriting a key that is present leaves the key list as it is.
\<close>

lemma update_keys_present:
  "map_of d k = Some x \<Longrightarrow> map fst (AList.update k v d) = map fst d"
  by (induction d) auto

lemma delete3_keys:
  "map fst (AList.delete ''dependencies'' (AList.delete ''labels'' (AList.delete ''neededBy'' rec))) =
     filter (\<lambda>k. k \<noteq> ''neededBy'' \<and> k \<noteq> ''labels'' \<and> k \<noteq> ''dependencies'') (map fst rec)"
  by (induction rec) auto

lemma delete3_lookup:
  "map_of (AList.delete ''dependencies'' (AList.delete ''labels'' (AList.delete ''neededBy'' rec))) k =
     (if k = ''neededBy'' \<or> k = ''labels'' \<or> k = ''dependencies'' then None else map_of rec k)"
  by (simp add: AList.delete_conv')

lemma loop_body_cases:
  assumes "loop_body (JObject rec) = Inr (JObject rec')"
  obtains (Safe) "map_of rec ''removal'' = Some (JString ''Recommended'')"
      and "rec' = AList.update ''removal'' (JString ''Safe'')
             (AList.delete ''dependencies'' (AList.delete ''labels'' (AList.delete ''neededBy'' rec)))"
    | (Disruptive) "map_of rec ''removal'' = Some (JString ''Expert'')"
      and "rec' = AList.update ''removal'' (JString ''Disruptive'')
             (AList.delete ''dependencies'' (AList.delete ''labels'' (AList.delete ''neededBy'' rec)))"
    | (Unchanged) "map_of rec ''removal'' \<noteq> Some (JString ''Recommended'')"
      and "map_of rec ''removal'' \<noteq> Some (JString ''Expert'')"
      and "rec' = AList.delete ''dependencies'' (AList.delete ''labels'' (AList.delete ''neededBy'' rec))"
proof -
  have removal: "map_of (AList.delete ''dependencies'' (AList.delete ''labels''
      (AList.delete ''neededBy'' rec))) ''removal'' = map_of rec ''removal''"
    by (simp add: delete3_lookup)
  from assms have "rec' =
     (if map_of rec ''removal'' = Some (JString ''Recommended'')
        then AList.update ''removal'' (JString ''Safe'')
          (AList.delete ''dependencies'' (AList.delete ''labels'' (AList.delete ''neededBy'' rec)))
      else if map_of rec ''removal'' = Some (JString ''Expert'')
        then AList.update ''removal'' (JString ''Disruptive'')
          (AList.delete ''dependencies'' (AList.delete ''labels'' (AList.delete ''neededBy'' rec)))
      else AList.delete ''dependencies'' (AList.delete ''labels'' (AList.delete ''neededBy'' rec)))"
    by (simp only: loop_body_object rename_removal_object removal sum.inject json.inject)
  then show thesis
    using Safe Disruptive Unchanged
    by (cases "map_of rec ''removal'' = Some (JString ''Recommended'')";
        cases "map_of rec ''removal'' = Some (JString ''Expert'')") simp_all
qed

lemma loop_body_lookup:
  assumes "loop_body (JObject rec) = Inr (JObject rec')"
  shows "map_of rec' k =
          (if k = ''neededBy'' \<or> k = ''labels'' \<or> k = ''dependencies'' then None
           else if k = ''removal'' \<and> map_of rec ''removal'' = Some (JString ''Recommended'')
             then Some (JString ''Safe'')
           else if k = ''removal'' \<and> map_of rec ''removal'' = Some (JString ''Expert'')
             then Some (JString ''Disruptive'')
           else map_of rec k)"
  using assms
proof (cases rule: loop_body_cases)
  case Safe
  then show ?thesis by (simp add: AList.update_conv' delete3_lookup)
next
  case Disruptive
  then show ?thesis by (simp add: AList.update_conv' delete3_lookup)
next
  case Unchanged
  then show ?thesis by (auto simp: delete3_lookup)
qed

lemma loop_body_keys:
  assumes "loop_body (JObject rec) = Inr (JObject rec')"
  shows "map fst rec' =
           filter (\<lambda>k. k \<noteq> ''neededBy'' \<and> k \<noteq> ''labels'' \<and> k \<noteq> ''dependencies'') (map fst rec)"
  using assms
proof (cases rule: loop_body_cases)
  case Safe
  from Safe(1) have "map_of (AList.delete ''dependencies'' (AList.delete ''labels''
      (AList.delete ''neededBy'' rec))) ''removal'' = Some (JString ''Recommended'')"
    by (simp add: delete3_lookup)
  from update_keys_present [OF this] Safe(2) show ?thesis
    by (simp only: delete3_keys)
next
  case Disruptive
  from Disruptive(1) have "map_of (AList.delete ''dependencies'' (AList.delete ''labels''
      (AList.delete ''neededBy'' rec))) ''removal'' = Some (JString ''Expert'')"
    by (simp add: delete3_lookup)
  from update_keys_present [OF this] Disruptive(2) show ?thesis
    by (simp only: delete3_keys)
next
  case Unchanged
  then show ?thesis by (simp only: delete3_keys)
qed

lemma loop_body_fixed:
  assumes "loop_body (JObject rec) = Inr (JObject rec')"
  shows "loop_body (JObject rec') = Inr (JObject rec')"
proof -
  have "map_of rec' ''neededBy'' = None" "map_of rec' ''labels'' = None"
      "map_of rec' ''dependencies'' = None"
    by (simp_all add: loop_body_lookup [OF assms])
  then have absent: "''neededBy'' \<notin> fst ` set rec'" "''labels'' \<notin> fst ` set rec'"
      "''dependencies'' \<notin> fst ` set rec'"
    by (simp_all add: map_of_eq_None_iff)
  have removal: "map_of rec' ''removal'' \<noteq> Some (JString ''Recommended'')"
      "map_of rec' ''removal'' \<noteq> Some (JString ''Expert'')"
    by (simp_all add: loop_body_lookup [OF assms])
  from absent removal show ?thesis
    by (simp add: loop_body_object rename_removal_object)
qed

section \<open>The loop on a Document\<close>

lemma items_loop_iff:
  "items_loop doc = Inr out \<longleftrightarrow>
     list_all2 (\<lambda>(app_id, app_data) (app_id', app_data').
        app_id' = app_id \<and> loop_body app_data = Inr app_data') doc out"
proof (induction doc arbitrary: out)
  case Nil
  show ?case by auto
next
  case (Cons entry rest)
  obtain app_id app_data where entry: "entry = (app_id, app_data)"
    by (cases entry)
  show ?case
    by (cases out) (auto simp: entry and_then_eq_Inr Cons.IH)
qed

lemma items_loop_total:
  "entries_are_objects doc \<Longrightarrow> \<exists>out. items_loop doc = Inr out"
proof (induction doc)
  case Nil
  show ?case by simp
next
  case (Cons entry rest)
  obtain app_id app_data where entry: "entry = (app_id, app_data)"
    by (cases entry)
  from Cons.prems have "is_object app_data" and "entries_are_objects rest"
    by (simp_all add: entry entries_are_objects_def)
  with Cons.IH loop_body_total [of app_data] show ?case
    by (auto simp: entry)
qed

lemma items_loop_keys: "items_loop doc = Inr out \<Longrightarrow> map fst out = map fst doc"
  unfolding items_loop_iff
  by (induction doc out rule: list_all2_induct) auto

lemma items_loop_nth:
  assumes "items_loop doc = Inr out" and "i < length doc"
  shows "\<exists>app_id rec rec'. doc ! i = (app_id, JObject rec) \<and> out ! i = (app_id, JObject rec')
           \<and> loop_body (JObject rec) = Inr (JObject rec')"
proof -
  from assms(1) have rel: "list_all2 (\<lambda>(app_id, app_data) (app_id', app_data').
        app_id' = app_id \<and> loop_body app_data = Inr app_data') doc out"
    by (simp add: items_loop_iff)
  obtain app_id app_data where d: "doc ! i = (app_id, app_data)"
    by (cases "doc ! i")
  obtain app_id' app_data' where out: "out ! i = (app_id', app_data')"
    by (cases "out ! i")
  from list_all2_nthD [OF rel assms(2)] d out
  have same: "app_id' = app_id" and body: "loop_body app_data = Inr app_data'"
    by simp_all
  from loop_body_Inr [OF body] obtain rec where rec: "app_data = JObject rec"
    by (cases app_data) simp_all
  from loop_body_total [of app_data] body rec obtain rec' where "app_data' = JObject rec'"
    by auto
  with d out same body rec show ?thesis
    by simp
qed

text \<open>
  On a Document whose entries are objects the loop ends without an exception, and the
  record at each position of the result is the loop body's result on the record at that
  position of the input, under the same key.
\<close>

lemma transform_records:
  assumes "entries_are_objects doc"
  shows "\<exists>out. transform (JObject doc) = Inr (JObject out) \<and> length out = length doc
           \<and> (\<forall>i<length doc. \<exists>app_id rec rec'.
                 doc ! i = (app_id, JObject rec) \<and> out ! i = (app_id, JObject rec')
                 \<and> loop_body (JObject rec) = Inr (JObject rec'))"
proof -
  from items_loop_total [OF assms] obtain out where out: "items_loop doc = Inr out"
    by blast
  from items_loop_keys [OF out] have "length out = length doc"
    by (metis length_map)
  with items_loop_nth [OF out] out show ?thesis
    by auto
qed

lemma entries_example_doc: "entries_are_objects example_doc"
  by (simp add: example_doc_def entries_are_objects_def)

text \<open>
  What holds of the loop body's result on every record holds at every position of the
  transformed Document.
\<close>

lemma every_record:
  assumes "entries_are_objects doc"
    and "\<And>rec rec'. loop_body (JObject rec) = Inr (JObject rec') \<Longrightarrow> P rec rec'"
  shows "\<exists>out. transform (JObject doc) = Inr (JObject out) \<and> length out = length doc
           \<and> (\<forall>i<length doc. \<exists>app_id rec rec'.
                 doc ! i = (app_id, JObject rec) \<and> out ! i = (app_id, JObject rec')
                 \<and> P rec rec')"
proof -
  from transform_records [OF assms(1)] obtain out
    where out: "transform (JObject doc) = Inr (JObject out)" "length out = length doc"
      and recs: "\<forall>i<length doc. \<exists>app_id rec rec'.
                 doc ! i = (app_id, JObject rec) \<and> out ! i = (app_id, JObject rec')
                 \<and> loop_body (JObject rec) = Inr (JObject rec')"
    by blast
  from recs assms(2) have "\<forall>i<length doc. \<exists>app_id rec rec'.
                 doc ! i = (app_id, JObject rec) \<and> out ! i = (app_id, JObject rec')
                 \<and> P rec rec'"
    by blast
  with out show ?thesis by blast
qed

section \<open>Exceptions of the loop\<close>

text \<open>
  The loop raises \<open>AttributeError\<close> or \<open>TypeError\<close> and nothing else: the guard
  \<open>'k' in app_data\<close> keeps \<open>del\<close> from a \<open>KeyError\<close>.
\<close>

lemma loop_body_error:
  "loop_body v = Inl e \<Longrightarrow> e = AttributeError \<or> e = TypeError"
proof (cases v)
  case (JObject d)
  assume "loop_body v = Inl e"
  with JObject show ?thesis
    by (simp add: loop_body_object rename_removal_object)
next
  case (JString s)
  assume "loop_body v = Inl e"
  with JString show ?thesis
    by (auto simp: loop_body_def remove_if_present_def rename_removal_def split: if_splits)
next
  case (JArray xs)
  assume "loop_body v = Inl e"
  with JArray show ?thesis
    by (auto simp: loop_body_def remove_if_present_def rename_removal_def split: if_splits)
qed (simp_all add: loop_body_def remove_if_present_def)

lemma items_loop_error:
  "items_loop doc = Inl e \<Longrightarrow> e = AttributeError \<or> e = TypeError"
proof (induction doc)
  case Nil
  then show ?case by simp
next
  case (Cons entry rest)
  obtain app_id app_data where entry: "entry = (app_id, app_data)"
    by (cases entry)
  show ?case
  proof (cases "loop_body app_data")
    case (Inl e')
    with Cons.prems loop_body_error [of app_data e'] show ?thesis
      by (simp add: entry)
  next
    case body: (Inr app_data')
    show ?thesis
    proof (cases "items_loop rest")
      case (Inl e')
      with Cons.prems body Cons.IH show ?thesis
        by (simp add: entry)
    next
      case (Inr rest')
      with Cons.prems body show ?thesis
        by (simp add: entry)
    qed
  qed
qed

lemma transform_error:
  "transform data = Inl e \<Longrightarrow> e = AttributeError \<or> e = TypeError"
proof (cases data)
  case (JObject doc)
  assume "transform data = Inl e"
  with JObject items_loop_error [of doc e] show ?thesis
    by (cases "items_loop doc") simp_all
qed simp_all

text \<open>
  The three examples of the specification, run together: the loop on the example
  Document.
\<close>

lemma transform_example_doc: "transform (JObject example_doc) = Inr (JObject example_out)"
  by (simp add: example_doc_def example_out_def loop_body_object rename_removal_object)

section \<open>The claims\<close>

text \<open>
  In the claims a record of a Document and its transformed record are the entries at the
  same position of the input and of the output; they carry the same application
  identifier. A field of a record is what the \<open>dict\<close> gives for its key
  (\<open>map_of\<close>); the keys of a record in their order are \<open>map fst\<close> of it.
\<close>

text \<open>
  Claim C1. For every Document whose entries are objects the loop ends without an
  exception, and for every record of it: if the record's \<open>removal\<close> field is the string
  \<open>Recommended\<close>, the transformed record's \<open>removal\<close> field is \<open>Safe\<close>; if it is the
  string \<open>Expert\<close>, the transformed record's is \<open>Disruptive\<close>.
\<close>

theorem removal_renamed:
  assumes "entries_are_objects doc"
  shows "\<exists>out. transform (JObject doc) = Inr (JObject out) \<and> length out = length doc
           \<and> (\<forall>i<length doc. \<exists>app_id rec rec'.
                 doc ! i = (app_id, JObject rec) \<and> out ! i = (app_id, JObject rec')
                 \<and> (map_of rec ''removal'' = Some (JString ''Recommended'')
                        \<longrightarrow> map_of rec' ''removal'' = Some (JString ''Safe''))
                 \<and> (map_of rec ''removal'' = Some (JString ''Expert'')
                        \<longrightarrow> map_of rec' ''removal'' = Some (JString ''Disruptive'')))"
  using assms
proof (rule every_record)
  fix rec rec'
  assume "loop_body (JObject rec) = Inr (JObject rec')"
  from loop_body_lookup [OF this, of "''removal''"]
  show "(map_of rec ''removal'' = Some (JString ''Recommended'')
            \<longrightarrow> map_of rec' ''removal'' = Some (JString ''Safe''))
      \<and> (map_of rec ''removal'' = Some (JString ''Expert'')
            \<longrightarrow> map_of rec' ''removal'' = Some (JString ''Disruptive''))"
    by simp
qed

theorem removal_renamed_witness:
  "entries_are_objects example_doc \<and>
   (\<exists>out rec_a rec_b. transform (JObject example_doc) = Inr (JObject out)
      \<and> out ! 0 = (''app.a'', JObject rec_a)
      \<and> map_of rec_a ''removal'' = Some (JString ''Safe'')
      \<and> out ! 1 = (''app.b'', JObject rec_b)
      \<and> map_of rec_b ''removal'' = Some (JString ''Disruptive''))"
proof -
  from removal_renamed [OF entries_example_doc] obtain out
    where out: "transform (JObject example_doc) = Inr (JObject out)"
      and recs: "\<And>i. i < length example_doc \<Longrightarrow> \<exists>app_id rec rec'.
                 example_doc ! i = (app_id, JObject rec) \<and> out ! i = (app_id, JObject rec')
                 \<and> (map_of rec ''removal'' = Some (JString ''Recommended'')
                        \<longrightarrow> map_of rec' ''removal'' = Some (JString ''Safe''))
                 \<and> (map_of rec ''removal'' = Some (JString ''Expert'')
                        \<longrightarrow> map_of rec' ''removal'' = Some (JString ''Disruptive''))"
    by blast
  from recs [of 0] obtain rec_a
    where a: "out ! 0 = (''app.a'', JObject rec_a)"
      "map_of rec_a ''removal'' = Some (JString ''Safe'')"
    by (auto simp: example_doc_def)
  from recs [of 1] obtain rec_b
    where b: "out ! 1 = (''app.b'', JObject rec_b)"
      "map_of rec_b ''removal'' = Some (JString ''Disruptive'')"
    by (auto simp: example_doc_def)
  from entries_example_doc out a b show ?thesis by blast
qed

text \<open>
  Claim C2. For every Document whose entries are objects and every record of it, the
  transformed record has none of the keys \<open>neededBy\<close>, \<open>labels\<close> and
  \<open>dependencies\<close>, whether or not the input record had them.
\<close>

theorem useless_fields_removed:
  assumes "entries_are_objects doc"
  shows "\<exists>out. transform (JObject doc) = Inr (JObject out) \<and> length out = length doc
           \<and> (\<forall>i<length doc. \<exists>app_id rec rec'.
                 doc ! i = (app_id, JObject rec) \<and> out ! i = (app_id, JObject rec')
                 \<and> ''neededBy'' \<notin> set (map fst rec')
                 \<and> ''labels'' \<notin> set (map fst rec')
                 \<and> ''dependencies'' \<notin> set (map fst rec'))"
  using assms
proof (rule every_record)
  fix rec rec' :: "(string \<times> json) list"
  assume "loop_body (JObject rec) = Inr (JObject rec')"
  from loop_body_keys [OF this]
  show "''neededBy'' \<notin> set (map fst rec') \<and> ''labels'' \<notin> set (map fst rec')
      \<and> ''dependencies'' \<notin> set (map fst rec')"
    by (simp only: set_filter) simp
qed

theorem useless_fields_removed_witness:
  "entries_are_objects example_doc \<and>
   (\<exists>out rec_a rec_b rec_d. transform (JObject example_doc) = Inr (JObject out)
      \<and> out ! 0 = (''app.a'', JObject rec_a) \<and> ''labels'' \<notin> set (map fst rec_a)
      \<and> out ! 1 = (''app.b'', JObject rec_b) \<and> ''dependencies'' \<notin> set (map fst rec_b)
      \<and> out ! 3 = (''app.d'', JObject rec_d) \<and> ''neededBy'' \<notin> set (map fst rec_d))"
proof -
  from useless_fields_removed [OF entries_example_doc] obtain out
    where out: "transform (JObject example_doc) = Inr (JObject out)"
      and recs: "\<And>i. i < length example_doc \<Longrightarrow> \<exists>app_id rec rec'.
                 example_doc ! i = (app_id, JObject rec) \<and> out ! i = (app_id, JObject rec')
                 \<and> ''neededBy'' \<notin> set (map fst rec')
                 \<and> ''labels'' \<notin> set (map fst rec')
                 \<and> ''dependencies'' \<notin> set (map fst rec')"
    by blast
  from recs [of 0] obtain rec_a
    where a: "out ! 0 = (''app.a'', JObject rec_a)" "''labels'' \<notin> set (map fst rec_a)"
    by (auto simp: example_doc_def)
  from recs [of 1] obtain rec_b
    where b: "out ! 1 = (''app.b'', JObject rec_b)" "''dependencies'' \<notin> set (map fst rec_b)"
    by (auto simp: example_doc_def)
  from recs [of 3] obtain rec_d
    where d: "out ! 3 = (''app.d'', JObject rec_d)" "''neededBy'' \<notin> set (map fst rec_d)"
    by (auto simp: example_doc_def)
  from entries_example_doc out a b d show ?thesis by blast
qed

text \<open>
  Claim C3. For every record whose \<open>removal\<close> field is absent, or present with a value
  other than the strings \<open>Recommended\<close> and \<open>Expert\<close>, the transformed record's
  \<open>removal\<close> field is the input's, and the key is present in the one exactly when it is
  in the other: no \<open>removal\<close> field is created.
\<close>

theorem other_removal_unchanged:
  assumes "entries_are_objects doc"
  shows "\<exists>out. transform (JObject doc) = Inr (JObject out) \<and> length out = length doc
           \<and> (\<forall>i<length doc. \<exists>app_id rec rec'.
                 doc ! i = (app_id, JObject rec) \<and> out ! i = (app_id, JObject rec')
                 \<and> (map_of rec ''removal'' \<noteq> Some (JString ''Recommended'')
                      \<and> map_of rec ''removal'' \<noteq> Some (JString ''Expert'')
                    \<longrightarrow> map_of rec' ''removal'' = map_of rec ''removal''
                      \<and> (''removal'' \<in> set (map fst rec') \<longleftrightarrow> ''removal'' \<in> set (map fst rec))))"
  using assms
proof (rule every_record)
  fix rec rec' :: "(string \<times> json) list"
  assume body: "loop_body (JObject rec) = Inr (JObject rec')"
  from loop_body_lookup [OF body, of "''removal''"]
  have "map_of rec ''removal'' \<noteq> Some (JString ''Recommended'')
          \<and> map_of rec ''removal'' \<noteq> Some (JString ''Expert'')
        \<longrightarrow> map_of rec' ''removal'' = map_of rec ''removal''"
    by simp
  moreover from loop_body_keys [OF body]
  have "''removal'' \<in> set (map fst rec') \<longleftrightarrow> ''removal'' \<in> set (map fst rec)"
    by (simp only: set_filter) simp
  ultimately
  show "map_of rec ''removal'' \<noteq> Some (JString ''Recommended'')
          \<and> map_of rec ''removal'' \<noteq> Some (JString ''Expert'')
        \<longrightarrow> map_of rec' ''removal'' = map_of rec ''removal''
          \<and> (''removal'' \<in> set (map fst rec') \<longleftrightarrow> ''removal'' \<in> set (map fst rec))"
    by blast
qed

theorem other_removal_unchanged_witness:
  "entries_are_objects example_doc \<and>
   (\<exists>out rec_c rec_d. transform (JObject example_doc) = Inr (JObject out)
      \<and> out ! 2 = (''app.c'', JObject rec_c)
      \<and> map_of rec_c ''removal'' = Some (JString ''Unknown'')
      \<and> out ! 3 = (''app.d'', JObject rec_d)
      \<and> map_of rec_d ''removal'' = None \<and> ''removal'' \<notin> set (map fst rec_d))"
proof -
  from other_removal_unchanged [OF entries_example_doc] obtain out
    where out: "transform (JObject example_doc) = Inr (JObject out)"
      and recs: "\<And>i. i < length example_doc \<Longrightarrow> \<exists>app_id rec rec'.
                 example_doc ! i = (app_id, JObject rec) \<and> out ! i = (app_id, JObject rec')
                 \<and> (map_of rec ''removal'' \<noteq> Some (JString ''Recommended'')
                      \<and> map_of rec ''removal'' \<noteq> Some (JString ''Expert'')
                    \<longrightarrow> map_of rec' ''removal'' = map_of rec ''removal''
                      \<and> (''removal'' \<in> set (map fst rec') \<longleftrightarrow> ''removal'' \<in> set (map fst rec)))"
    by blast
  from recs [of 2] obtain rec_c
    where c: "out ! 2 = (''app.c'', JObject rec_c)"
      "map_of rec_c ''removal'' = Some (JString ''Unknown'')"
    by (auto simp: example_doc_def)
  from recs [of 3] obtain rec_d
    where d: "out ! 3 = (''app.d'', JObject rec_d)"
      "map_of rec_d ''removal'' = None" "''removal'' \<notin> set (map fst rec_d)"
    by (auto simp: example_doc_def)
  from entries_example_doc out c d show ?thesis by blast
qed

text \<open>
  Claim C4. For every record, every field other than \<open>neededBy\<close>, \<open>labels\<close>,
  \<open>dependencies\<close> and \<open>removal\<close> has in the transformed record exactly the value it
  has in the input record, and is absent from the one when absent from the other.
\<close>

theorem other_fields_untouched:
  assumes "entries_are_objects doc"
  shows "\<exists>out. transform (JObject doc) = Inr (JObject out) \<and> length out = length doc
           \<and> (\<forall>i<length doc. \<exists>app_id rec rec'.
                 doc ! i = (app_id, JObject rec) \<and> out ! i = (app_id, JObject rec')
                 \<and> (\<forall>k. k \<noteq> ''neededBy'' \<and> k \<noteq> ''labels'' \<and> k \<noteq> ''dependencies''
                          \<and> k \<noteq> ''removal''
                        \<longrightarrow> map_of rec' k = map_of rec k))"
  using assms
proof (rule every_record)
  fix rec rec' :: "(string \<times> json) list"
  assume body: "loop_body (JObject rec) = Inr (JObject rec')"
  show "\<forall>k. k \<noteq> ''neededBy'' \<and> k \<noteq> ''labels'' \<and> k \<noteq> ''dependencies'' \<and> k \<noteq> ''removal''
          \<longrightarrow> map_of rec' k = map_of rec k"
    by (simp add: loop_body_lookup [OF body])
qed

theorem other_fields_untouched_witness:
  "entries_are_objects example_doc \<and>
   (\<exists>out rec_a rec_d. transform (JObject example_doc) = Inr (JObject out)
      \<and> out ! 0 = (''app.a'', JObject rec_a) \<and> map_of rec_a ''other'' = Some (JInt 1)
      \<and> out ! 3 = (''app.d'', JObject rec_d) \<and> map_of rec_d ''list'' = Some (JString ''Oem'')
      \<and> map_of rec_d ''other'' = None)"
proof -
  from other_fields_untouched [OF entries_example_doc] obtain out
    where out: "transform (JObject example_doc) = Inr (JObject out)"
      and recs: "\<And>i. i < length example_doc \<Longrightarrow> \<exists>app_id rec rec'.
                 example_doc ! i = (app_id, JObject rec) \<and> out ! i = (app_id, JObject rec')
                 \<and> (\<forall>k. k \<noteq> ''neededBy'' \<and> k \<noteq> ''labels'' \<and> k \<noteq> ''dependencies''
                          \<and> k \<noteq> ''removal''
                        \<longrightarrow> map_of rec' k = map_of rec k)"
    by blast
  from recs [of 0] obtain rec_a
    where a: "out ! 0 = (''app.a'', JObject rec_a)"
      and fa: "\<And>k. k \<noteq> ''neededBy'' \<and> k \<noteq> ''labels'' \<and> k \<noteq> ''dependencies'' \<and> k \<noteq> ''removal''
            \<Longrightarrow> map_of rec_a k = map_of [(''removal'', JString ''Recommended''),
                   (''labels'', JArray [JString ''x'']), (''other'', JInt 1)] k"
    by (auto simp: example_doc_def)
  from recs [of 3] obtain rec_d
    where d: "out ! 3 = (''app.d'', JObject rec_d)"
      and fd: "\<And>k. k \<noteq> ''neededBy'' \<and> k \<noteq> ''labels'' \<and> k \<noteq> ''dependencies'' \<and> k \<noteq> ''removal''
            \<Longrightarrow> map_of rec_d k = map_of [(''neededBy'', JArray []), (''list'', JString ''Oem'')] k"
    by (auto simp: example_doc_def)
  from fa [of "''other''"] have "map_of rec_a ''other'' = Some (JInt 1)"
    by simp
  moreover from fd [of "''list''"] have "map_of rec_d ''list'' = Some (JString ''Oem'')"
    by simp
  moreover from fd [of "''other''"] have "map_of rec_d ''other'' = None"
    by simp
  ultimately show ?thesis
    using entries_example_doc out a d by blast
qed

text \<open>
  Claim C5. The loop produces an output Document exactly for the Documents whose entries
  are objects, and the output then has the keys of the input, in the same order: no
  top-level key is added, removed or moved.
\<close>

theorem document_keys_preserved:
  "((\<exists>data'. transform (JObject doc) = Inr data') \<longleftrightarrow> entries_are_objects doc)
   \<and> (\<forall>data'. transform (JObject doc) = Inr data'
         \<longrightarrow> (\<exists>out. data' = JObject out \<and> map fst out = map fst doc))"
proof -
  have objects: "entries_are_objects doc" if "items_loop doc = Inr out" for out
    using that
  proof (induction doc arbitrary: out)
    case Nil
    show ?case by (simp add: entries_are_objects_def)
  next
    case (Cons entry rest)
    obtain app_id app_data where entry: "entry = (app_id, app_data)"
      by (cases entry)
    from Cons.prems obtain app_data' rest'
      where body: "loop_body app_data = Inr app_data'" and rest: "items_loop rest = Inr rest'"
      by (auto simp: entry and_then_eq_Inr)
    from loop_body_Inr [OF body] Cons.IH [OF rest] show ?case
      by (simp add: entry entries_are_objects_def)
  qed
  have "(\<exists>data'. transform (JObject doc) = Inr data') \<longleftrightarrow> entries_are_objects doc"
    using objects items_loop_total [of doc] by (auto simp: and_then_eq_Inr)
  moreover have "\<exists>out. data' = JObject out \<and> map fst out = map fst doc"
    if "transform (JObject doc) = Inr data'" for data'
    using that items_loop_keys [of doc] by (auto simp: and_then_eq_Inr)
  ultimately show ?thesis by blast
qed

theorem document_keys_preserved_witness:
  "\<exists>out. transform (JObject example_doc) = Inr (JObject out)
     \<and> map fst out = [''app.a'', ''app.b'', ''app.c'', ''app.d'']"
proof -
  have keys: "map fst example_doc = [''app.a'', ''app.b'', ''app.c'', ''app.d'']"
    by (simp add: example_doc_def)
  from document_keys_preserved [of example_doc] entries_example_doc
  obtain data' where "transform (JObject example_doc) = Inr data'"
    and "\<exists>out. data' = JObject out \<and> map fst out = map fst example_doc"
    by blast
  with keys show ?thesis by auto
qed

text \<open>
  Claim C6. The transformation is idempotent: for every Document whose entries are
  objects it produces an output, and applied to that output it produces the same output
  again.
\<close>

theorem transform_idempotent:
  assumes "entries_are_objects doc"
  shows "\<exists>out. transform (JObject doc) = Inr out \<and> transform out = Inr out"
proof -
  from items_loop_total [OF assms] obtain out where out: "items_loop doc = Inr out"
    by blast
  then have rel: "list_all2 (\<lambda>(app_id, app_data) (app_id', app_data').
        app_id' = app_id \<and> loop_body app_data = Inr app_data') doc out"
    by (simp add: items_loop_iff)
  have fixed: "loop_body v' = Inr v'" if "loop_body v = Inr v'" for v v'
  proof -
    from loop_body_Inr [OF that] obtain rec where rec: "v = JObject rec"
      by (cases v) simp_all
    with loop_body_total [of v] that obtain rec' where "v' = JObject rec'"
      by auto
    with that rec loop_body_fixed show ?thesis
      by simp
  qed
  from rel have "list_all2 (\<lambda>(app_id, app_data) (app_id', app_data').
        app_id' = app_id \<and> loop_body app_data = Inr app_data') out out"
    by (induction doc out rule: list_all2_induct) (auto dest: fixed)
  then have "items_loop out = Inr out"
    by (simp add: items_loop_iff)
  with out show ?thesis
    by simp
qed

theorem transform_idempotent_witness:
  "entries_are_objects example_doc
   \<and> transform (JObject example_doc) = Inr (JObject example_out)
   \<and> transform (JObject example_out) = Inr (JObject example_out)"
proof -
  from transform_idempotent [OF entries_example_doc] obtain out
    where "transform (JObject example_doc) = Inr out" and "transform out = Inr out"
    by blast
  with transform_example_doc
  have "transform (JObject example_out) = Inr (JObject example_out)"
    by (simp del: transform.simps)
  with entries_example_doc transform_example_doc show ?thesis
    by (simp del: transform.simps)
qed

text \<open>
  Claim C8. For every record, the keys of the transformed record are the keys of the input
  record without \<open>neededBy\<close>, \<open>labels\<close> and \<open>dependencies\<close>, in the input's order:
  the surviving fields keep their relative order, and a \<open>removal\<close> field that is
  overwritten keeps its place among them.
\<close>

theorem field_order_preserved:
  assumes "entries_are_objects doc"
  shows "\<exists>out. transform (JObject doc) = Inr (JObject out) \<and> length out = length doc
           \<and> (\<forall>i<length doc. \<exists>app_id rec rec'.
                 doc ! i = (app_id, JObject rec) \<and> out ! i = (app_id, JObject rec')
                 \<and> map fst rec' =
                     filter (\<lambda>k. k \<noteq> ''neededBy'' \<and> k \<noteq> ''labels'' \<and> k \<noteq> ''dependencies'')
                       (map fst rec))"
  using assms
  by (rule every_record) (rule loop_body_keys)

theorem field_order_preserved_witness:
  "entries_are_objects example_doc \<and>
   (\<exists>out rec_a rec_d. transform (JObject example_doc) = Inr (JObject out)
      \<and> out ! 0 = (''app.a'', JObject rec_a) \<and> map fst rec_a = [''removal'', ''other'']
      \<and> out ! 3 = (''app.d'', JObject rec_d) \<and> map fst rec_d = [''list''])"
proof -
  from field_order_preserved [OF entries_example_doc] obtain out
    where out: "transform (JObject example_doc) = Inr (JObject out)"
      and recs: "\<And>i. i < length example_doc \<Longrightarrow> \<exists>app_id rec rec'.
                 example_doc ! i = (app_id, JObject rec) \<and> out ! i = (app_id, JObject rec')
                 \<and> map fst rec' =
                     filter (\<lambda>k. k \<noteq> ''neededBy'' \<and> k \<noteq> ''labels'' \<and> k \<noteq> ''dependencies'')
                       (map fst rec)"
    by blast
  from recs [of 0] obtain rec_a
    where a: "out ! 0 = (''app.a'', JObject rec_a)" "map fst rec_a = [''removal'', ''other'']"
    by (auto simp: example_doc_def)
  from recs [of 3] obtain rec_d
    where d: "out ! 3 = (''app.d'', JObject rec_d)" "map fst rec_d = [''list'']"
    by (auto simp: example_doc_def)
  show ?thesis
    by (intro conjI exI) (rule entries_example_doc out a d)+
qed

text \<open>
  Claim C9. In the transformed Document no record has a \<open>removal\<close> field that is the
  string \<open>Recommended\<close> or the string \<open>Expert\<close>, for every input Document whose entries
  are objects.
\<close>

theorem no_old_removal_values:
  assumes "entries_are_objects doc"
  shows "\<exists>out. transform (JObject doc) = Inr (JObject out) \<and> length out = length doc
           \<and> (\<forall>i<length doc. \<exists>app_id rec rec'.
                 doc ! i = (app_id, JObject rec) \<and> out ! i = (app_id, JObject rec')
                 \<and> map_of rec' ''removal'' \<noteq> Some (JString ''Recommended'')
                 \<and> map_of rec' ''removal'' \<noteq> Some (JString ''Expert''))"
  using assms
proof (rule every_record)
  fix rec rec' :: "(string \<times> json) list"
  assume body: "loop_body (JObject rec) = Inr (JObject rec')"
  show "map_of rec' ''removal'' \<noteq> Some (JString ''Recommended'')
      \<and> map_of rec' ''removal'' \<noteq> Some (JString ''Expert'')"
    by (simp add: loop_body_lookup [OF body])
qed

theorem no_old_removal_values_witness:
  "entries_are_objects example_doc \<and>
   (\<exists>out rec_a rec_b. transform (JObject example_doc) = Inr (JObject out)
      \<and> out ! 0 = (''app.a'', JObject rec_a)
      \<and> map_of rec_a ''removal'' \<noteq> Some (JString ''Recommended'')
      \<and> out ! 1 = (''app.b'', JObject rec_b)
      \<and> map_of rec_b ''removal'' \<noteq> Some (JString ''Expert''))"
proof -
  from no_old_removal_values [OF entries_example_doc] obtain out
    where out: "transform (JObject example_doc) = Inr (JObject out)"
      and recs: "\<And>i. i < length example_doc \<Longrightarrow> \<exists>app_id rec rec'.
                 example_doc ! i = (app_id, JObject rec) \<and> out ! i = (app_id, JObject rec')
                 \<and> map_of rec' ''removal'' \<noteq> Some (JString ''Recommended'')
                 \<and> map_of rec' ''removal'' \<noteq> Some (JString ''Expert'')"
    by blast
  from recs [of 0] obtain rec_a
    where a: "out ! 0 = (''app.a'', JObject rec_a)"
      "map_of rec_a ''removal'' \<noteq> Some (JString ''Recommended'')"
    by (auto simp: example_doc_def)
  from recs [of 1] obtain rec_b
    where b: "out ! 1 = (''app.b'', JObject rec_b)"
      "map_of rec_b ''removal'' \<noteq> Some (JString ''Expert'')"
    by (auto simp: example_doc_def)
  show ?thesis
    by (intro conjI exI) (rule entries_example_doc out a b)+
qed

end
